theory Spec2Isabelle
  imports Main "HOL-Library.Word"
begin

section \<open>JavaScript values used by server.js\<close>

text \<open>
  A JavaScript string is a sequence of UTF-16 code units. The literals of server.js that
  are plain ASCII are written with \<open>js\<close>; the two Hebrew literals are given by their
  code units.
\<close>

type_synonym jschar = "16 word"
type_synonym jsstring = "jschar list"

definition js :: "string \<Rightarrow> jsstring" where
  "js s = map of_char s"

text \<open>
  The values a parsed JSON document (a request body, an upstream completion) is made of,
  and \<open>undefined\<close>. A number is kept as an integer: server.js only asks whether a
  number is falsy and what its \<open>typeof\<close> is.
\<close>

datatype jsval =
    Undefined
  | Null
  | Bool bool
  | Num int
  | Str jsstring
  | Arr "jsval list"
  | Obj "(jsstring \<times> jsval) list"

fun truthy :: "jsval \<Rightarrow> bool" where
  "truthy Undefined = False"
| "truthy Null = False"
| "truthy (Bool b) = b"
| "truthy (Num n) = (n \<noteq> 0)"
| "truthy (Str s) = (s \<noteq> [])"
| "truthy (Arr xs) = True"
| "truthy (Obj fs) = True"

fun typeof :: "jsval \<Rightarrow> jsstring" where
  "typeof Undefined = js ''undefined''"
| "typeof Null = js ''object''"
| "typeof (Bool b) = js ''boolean''"
| "typeof (Num n) = js ''number''"
| "typeof (Str s) = js ''string''"
| "typeof (Arr xs) = js ''object''"
| "typeof (Obj fs) = js ''object''"

fun nullish :: "jsval \<Rightarrow> bool" where
  "nullish Undefined = True"
| "nullish Null = True"
| "nullish v = False"

text \<open>
  Reading a named property \<open>v.name\<close> of a value that is not nullish. Of the names
  server.js reads (\<open>chatId\<close>, \<open>message\<close>, \<open>choices\<close>, \<open>content\<close>) none is a
  property of an array, string, number or boolean. In a parsed object the last of
  several members with one name is the one kept.
\<close>

fun get_prop :: "jsval \<Rightarrow> jsstring \<Rightarrow> jsval" where
  "get_prop (Obj fs) name = (case map_of (rev fs) name of None \<Rightarrow> Undefined | Some v \<Rightarrow> v)"
| "get_prop v name = Undefined"

text \<open>Reading \<open>v[0]\<close> of a value that is not nullish.\<close>

fun get_index0 :: "jsval \<Rightarrow> jsval" where
  "get_index0 (Arr xs) = (case xs of [] \<Rightarrow> Undefined | x # _ \<Rightarrow> x)"
| "get_index0 (Str s) = (case s of [] \<Rightarrow> Undefined | c # _ \<Rightarrow> Str [c])"
| "get_index0 (Obj fs) = get_prop (Obj fs) (js ''0'')"
| "get_index0 v = Undefined"

text \<open>
  \<open>String.prototype.trim\<close> strips the code units of WhiteSpace and LineTerminator
  from both ends.
\<close>

definition is_js_space :: "jschar \<Rightarrow> bool" where
  "is_js_space c \<longleftrightarrow>
     c \<in> set [0x0009, 0x000A, 0x000B, 0x000C, 0x000D, 0x0020, 0x00A0, 0x1680,
              0x2000, 0x2001, 0x2002, 0x2003, 0x2004, 0x2005, 0x2006, 0x2007,
              0x2008, 0x2009, 0x200A, 0x2028, 0x2029, 0x202F, 0x205F, 0x3000, 0xFEFF]"

definition js_trim :: "jsstring \<Rightarrow> jsstring" where
  "js_trim s = rev (dropWhile is_js_space (rev (dropWhile is_js_space s)))"

text \<open>\<open>xs.slice(-n)\<close>: the last \<open>n\<close> elements, all of them when there are fewer.\<close>

definition slice_last :: "nat \<Rightarrow> 'a list \<Rightarrow> 'a list" where
  "slice_last n xs = drop (length xs - n) xs"


section \<open>Chat state\<close>

record message =
  role :: jsstring
  content :: jsstring

text \<open>The in-memory \<open>Map\<close> from chat id to messages, in insertion order.\<close>

type_synonym chat_store = "(jsstring \<times> message list) list"

definition chats_has :: "jsstring \<Rightarrow> chat_store \<Rightarrow> bool" where
  "chats_has chatId chats \<longleftrightarrow> chatId \<in> set (map fst chats)"

definition chats_get :: "jsstring \<Rightarrow> chat_store \<Rightarrow> message list option" where
  "chats_get chatId chats = map_of chats chatId"

primrec chats_set :: "jsstring \<Rightarrow> message list \<Rightarrow> chat_store \<Rightarrow> chat_store" where
  "chats_set chatId msgs [] = [(chatId, msgs)]"
| "chats_set chatId msgs (e # es) =
     (if fst e = chatId then (chatId, msgs) # es else e # chats_set chatId msgs es)"

definition chats_delete :: "jsstring \<Rightarrow> chat_store \<Rightarrow> chat_store" where
  "chats_delete chatId chats = filter (\<lambda>e. fst e \<noteq> chatId) chats"

definition chats_keys :: "chat_store \<Rightarrow> jsstring list" where
  "chats_keys chats = map fst chats"

definition SYSTEM_PROMPT :: jsstring where
  "SYSTEM_PROMPT =
     [0x05D0, 0x05EA, 0x05D4, 0x0020, 0x05E6, 0x0027, 0x05D0, 0x05D8, 0x05D1, 0x05D5,
      0x05D8, 0x0020, 0x05E2, 0x05D5, 0x05D6, 0x05E8, 0x002C, 0x0020, 0x05E2, 0x05E0,
      0x05D4, 0x0020, 0x05D1, 0x05E7, 0x05E6, 0x05E8, 0x05D4, 0x0020, 0x05D5, 0x05D1,
      0x05E8, 0x05D5, 0x05E8, 0x05D4, 0x002E]"

definition MAX_TURNS :: nat where
  "MAX_TURNS = 20"

definition system_message :: message where
  "system_message = \<lparr>role = js ''system'', content = SYSTEM_PROMPT\<rparr>"

text \<open>
  \<open>getOrCreateChat\<close> returns what \<open>chats.get(chatId)\<close> gives (\<open>None\<close> for
  \<open>undefined\<close>) together with the store as it has left it.
\<close>

definition getOrCreateChat :: "jsstring \<Rightarrow> chat_store \<Rightarrow> message list option \<times> chat_store" where
  "getOrCreateChat chatId chats =
     (let chats' = (if \<not> chats_has chatId chats
                    then chats_set chatId [system_message] chats else chats)
      in (chats_get chatId chats', chats'))"

definition is_system :: "message \<Rightarrow> bool" where
  "is_system m \<longleftrightarrow> role m = js ''system''"

definition trimHistory :: "message list \<Rightarrow> message list" where
  "trimHistory messages =
     (let system = (case messages of
                      [] \<Rightarrow> []
                    | m # _ \<Rightarrow> if role m = js ''system'' then [m] else []);
          rest = filter (\<lambda>m. role m \<noteq> js ''system'') messages;
          maxMessages = MAX_TURNS * 2;
          trimmedRest = slice_last maxMessages rest
      in system @ trimmedRest)"



section \<open>HTTP handlers\<close>

datatype resp_body =
    TextBody jsstring
  | ErrorJson jsstring
  | OkJson bool
  | ChatIdsJson "jsstring list"
  | ReplyJson jsstring

text \<open>A response is its status code and its body.\<close>

type_synonym http_response = "nat \<times> resp_body"

definition healthz :: http_response where
  "healthz = (200, TextBody (js ''ok''))"

text \<open>
  \<open>DELETE /api/chat/:chatId\<close>. The route parameter is a string; the router only
  dispatches here with a non-empty one, the handler checks it all the same.
\<close>

definition delete_chat :: "jsstring \<Rightarrow> chat_store \<Rightarrow> http_response \<times> chat_store" where
  "delete_chat chatId chats =
     (if \<not> truthy (Str chatId) then ((400, ErrorJson (js ''chatId is required'')), chats)
      else if \<not> chats_has chatId chats then ((404, ErrorJson (js ''Chat not found'')), chats)
      else ((200, OkJson True), chats_delete chatId chats))"

definition list_chats :: "chat_store \<Rightarrow> http_response" where
  "list_chats chats = (200, ChatIdsJson (chats_keys chats))"

subsection \<open>The upstream completion\<close>

text \<open>
  The completion call is outside server.js: it either throws (a rejected promise, or a
  client that cannot be constructed) or yields the parsed completion object.
\<close>

datatype upstream_result = Rejected | Resolved jsval

datatype js_error = TypeError

definition FALLBACK_REPLY :: jsstring where
  "FALLBACK_REPLY =
     [0x05DC, 0x05D0, 0x0020, 0x05D4, 0x05E6, 0x05DC, 0x05D7, 0x05EA, 0x05D9, 0x0020,
      0x05DC, 0x05E0, 0x05E1, 0x05D7, 0x0020, 0x05EA, 0x05E9, 0x05D5, 0x05D1, 0x05D4, 0x002E]"

text \<open>\<open>v?.f\<close>: \<open>undefined\<close> when \<open>v\<close> is nullish.\<close>

definition opt_chain :: "jsval \<Rightarrow> (jsval \<Rightarrow> jsval) \<Rightarrow> jsval" where
  "opt_chain v f = (if nullish v then Undefined else f v)"

text \<open>\<open>completion?.choices?.[0]?.message?.content\<close>\<close>

definition completion_content :: "jsval \<Rightarrow> jsval" where
  "completion_content completion =
     opt_chain completion (\<lambda>c.
       opt_chain (get_prop c (js ''choices'')) (\<lambda>choices.
         opt_chain (get_index0 choices) (\<lambda>choice.
           opt_chain (get_prop choice (js ''message'')) (\<lambda>message.
             get_prop message (js ''content'')))))"

text \<open>
  \<open>content?.trim()\<close>: \<open>undefined\<close> (\<open>None\<close>) for a nullish content, the trimmed
  string for a string, and a TypeError for anything else, which has no callable
  \<open>trim\<close>.
\<close>

fun call_trim :: "jsval \<Rightarrow> js_error + jsstring option" where
  "call_trim Undefined = Inr None"
| "call_trim Null = Inr None"
| "call_trim (Str s) = Inr (Some (js_trim s))"
| "call_trim v = Inl TypeError"

text \<open>\<open>completion?.choices?.[0]?.message?.content?.trim() || FALLBACK\<close>\<close>

definition chat_reply :: "jsval \<Rightarrow> js_error + jsstring" where
  "chat_reply completion =
     (case call_trim (completion_content completion) of
        Inl e \<Rightarrow> Inl e
      | Inr None \<Rightarrow> Inr FALLBACK_REPLY
      | Inr (Some s) \<Rightarrow> Inr (if truthy (Str s) then s else FALLBACK_REPLY))"

subsection \<open>\<open>POST /api/chat\<close>\<close>

text \<open>
  The handler runs up to its \<open>await\<close>, where it either has answered already or is
  suspended on the upstream call it has made, with the chat id and the \<open>messages\<close> it
  has passed (what \<open>chats.get(chatId)\<close> gave), and is resumed with the outcome of
  that call. Whatever is thrown on the way is caught and answered with status 500.
\<close>

datatype post_progress =
    Answered http_response
  | AwaitUpstream jsstring "message list option"

definition server_error :: http_response where
  "server_error = (500, ErrorJson (js ''Server error''))"

fun str_of :: "jsval \<Rightarrow> jsstring" where
  "str_of (Str s) = s"
| "str_of v = []"

text \<open>
  A field taken by \<open>const { chatId, message } = req.body || {}\<close>: \<open>undefined\<close>
  when the body is falsy or has no such member.
\<close>

definition request_field :: "jsval \<Rightarrow> jsstring \<Rightarrow> jsval" where
  "request_field req_body name = get_prop (if truthy req_body then req_body else Obj []) name"

definition post_chat_begin :: "jsval \<Rightarrow> chat_store \<Rightarrow> post_progress \<times> chat_store" where
  "post_chat_begin req_body chats =
     (let chatId = request_field req_body (js ''chatId'');
          message = request_field req_body (js ''message'')
      in if \<not> truthy chatId \<or> typeof chatId \<noteq> js ''string''
         then (Answered (400, ErrorJson (js ''chatId is required'')), chats)
         else if \<not> truthy message \<or> typeof message \<noteq> js ''string''
         then (Answered (400, ErrorJson (js ''message is required'')), chats)
         else
           (case getOrCreateChat (str_of chatId) chats of
              (None, chats1) \<Rightarrow> (Answered server_error, chats1)
            | (Some history, chats1) \<Rightarrow>
                (let history' = history @ [\<lparr>role = js ''user'', content = str_of message\<rparr>];
                     chats2 = chats_set (str_of chatId) (trimHistory history') chats1
                 in (AwaitUpstream (str_of chatId) (chats_get (str_of chatId) chats2), chats2))))"

definition post_chat_resume ::
  "jsstring \<Rightarrow> upstream_result \<Rightarrow> chat_store \<Rightarrow> http_response \<times> chat_store" where
  "post_chat_resume chatId outcome chats =
     (case outcome of
        Rejected \<Rightarrow> (server_error, chats)
      | Resolved completion \<Rightarrow>
          (case chat_reply completion of
             Inl e \<Rightarrow> (server_error, chats)
           | Inr reply \<Rightarrow>
               (case chats_get chatId chats of
                  None \<Rightarrow> (server_error, chats)
                | Some updated \<Rightarrow>
                    (let updated' = updated @ [\<lparr>role = js ''assistant'', content = reply\<rparr>]
                     in ((200, ReplyJson reply),
                         chats_set chatId (trimHistory updated') chats)))))"

text \<open>A request served with no other request in between, against a given upstream.\<close>

definition post_chat ::
  "(message list option \<Rightarrow> upstream_result) \<Rightarrow> jsval \<Rightarrow> chat_store
     \<Rightarrow> http_response \<times> chat_store" where
  "post_chat upstream req_body chats =
     (case post_chat_begin req_body chats of
        (Answered res, chats') \<Rightarrow> (res, chats')
      | (AwaitUpstream chatId sent, chats') \<Rightarrow> post_chat_resume chatId (upstream sent) chats')"

subsection \<open>The server as a state machine\<close>

text \<open>
  Handlers run one at a time and give way only at the \<open>await\<close>. The state is the chat
  store and the chat ids of the suspended \<open>POST\<close> handlers; an event starts a handler
  or resumes a suspended one with an outcome of its upstream call.
\<close>

record server_state =
  store :: chat_store
  suspended :: "jsstring list"

datatype event =
    Healthz
  | ListChats
  | Delete jsstring
  | Post jsval
  | Resume nat upstream_result

definition initial_state :: server_state where
  "initial_state = \<lparr>store = [], suspended = []\<rparr>"

fun step :: "server_state \<Rightarrow> event \<Rightarrow> http_response option \<times> server_state" where
  "step s Healthz = (Some healthz, s)"
| "step s ListChats = (Some (list_chats (store s)), s)"
| "step s (Delete chatId) =
     (case delete_chat chatId (store s) of (res, chats') \<Rightarrow> (Some res, s\<lparr>store := chats'\<rparr>))"
| "step s (Post req_body) =
     (case post_chat_begin req_body (store s) of
        (Answered res, chats') \<Rightarrow> (Some res, s\<lparr>store := chats'\<rparr>)
      | (AwaitUpstream chatId sent, chats') \<Rightarrow>
          (None, s\<lparr>store := chats', suspended := suspended s @ [chatId]\<rparr>))"
| "step s (Resume i outcome) =
     (if i < length (suspended s)
      then (case post_chat_resume (suspended s ! i) outcome (store s) of
              (res, chats') \<Rightarrow>
                (Some res, s\<lparr>store := chats',
                              suspended := take i (suspended s) @ drop (Suc i) (suspended s)\<rparr>))
      else (None, s))"

definition run :: "event list \<Rightarrow> server_state" where
  "run events = foldl (\<lambda>s e. snd (step s e)) initial_state events"



section \<open>Notions used in the statements\<close>

text \<open>
  The two parts of a message sequence the trimmer's contract speaks of: the leading system
  message, if the first message has role \<open>system\<close>, and the messages of any other role.
\<close>

definition leading_system :: "message list \<Rightarrow> message list" where
  "leading_system messages =
     (case messages of [] \<Rightarrow> [] | m # _ \<Rightarrow> if is_system m then [m] else [])"

definition non_system :: "message list \<Rightarrow> message list" where
  "non_system messages = filter (\<lambda>m. \<not> is_system m) messages"

text \<open>
  A reply content that is absent, empty or made of white space only, where the content is
  what \<open>completion?.choices?.[0]?.message?.content\<close> evaluates to.
\<close>

fun blank_content :: "jsval \<Rightarrow> bool" where
  "blank_content Undefined = True"
| "blank_content Null = True"
| "blank_content (Str s) = list_all is_js_space s"
| "blank_content v = False"

text \<open>
  A stored chat as the invariants describe it: the system prompt first, then at most
  \<open>MAX_TURNS * 2\<close> messages, none of them of role \<open>system\<close>.
\<close>

definition chat_ok :: "message list \<Rightarrow> bool" where
  "chat_ok msgs \<longleftrightarrow>
     (case msgs of
        [] \<Rightarrow> False
      | m # rest \<Rightarrow> m = system_message \<and> list_all (\<lambda>m. \<not> is_system m) rest
                    \<and> length rest \<le> MAX_TURNS * 2)"

definition store_ok :: "chat_store \<Rightarrow> bool" where
  "store_ok chats \<longleftrightarrow> list_all (\<lambda>e. chat_ok (snd e)) chats"

text \<open>
  The history a valid \<open>POST\<close> for a chat id works on, and the store it works in, once
  \<open>getOrCreateChat\<close> has run: the stored ones, or the freshly seeded ones.
\<close>

definition history_of :: "jsstring \<Rightarrow> chat_store \<Rightarrow> message list" where
  "history_of k chats = (case chats_get k chats of None \<Rightarrow> [system_message] | Some h \<Rightarrow> h)"

definition store_of :: "jsstring \<Rightarrow> chat_store \<Rightarrow> chat_store" where
  "store_of k chats = (if chats_has k chats then chats else chats_set k [system_message] chats)"

text \<open>
  Requests served one after the other, and the two messages a completed request adds to
  its chat.
\<close>

definition send_all ::
  "(message list option \<Rightarrow> upstream_result) \<Rightarrow> jsval list \<Rightarrow> chat_store \<Rightarrow> chat_store" where
  "send_all upstream bodies chats = foldl (\<lambda>c b. snd (post_chat upstream b c)) chats bodies"

definition turn :: "jsstring \<Rightarrow> jsstring \<Rightarrow> message list" where
  "turn message reply =
     [\<lparr>role = js ''user'', content = message\<rparr>, \<lparr>role = js ''assistant'', content = reply\<rparr>]"

text \<open>The server taken on from any state by a sequence of events.\<close>

definition run_from :: "server_state \<Rightarrow> event list \<Rightarrow> server_state" where
  "run_from s events = foldl (\<lambda>s e. snd (step s e)) s events"

text \<open>Sample messages and requests for the concrete checks below.\<close>

definition post_body :: "string \<Rightarrow> string \<Rightarrow> jsval" where
  "post_body chatId message =
     Obj [(js ''chatId'', Str (js chatId)), (js ''message'', Str (js message))]"

definition completion_with :: "jsval \<Rightarrow> jsval" where
  "completion_with c =
     Obj [(js ''choices'', Arr [Obj [(js ''message'', Obj [(js ''content'', c)])]])]"


definition user_msg :: "nat \<Rightarrow> message" where
  "user_msg n = \<lparr>role = js ''user'', content = [of_nat n]\<rparr>"

definition assistant_msg :: "nat \<Rightarrow> message" where
  "assistant_msg n = \<lparr>role = js ''assistant'', content = [of_nat n]\<rparr>"


section \<open>Properties of the history trimmer\<close>

lemma role_literals_distinct:
  "js ''user'' \<noteq> js ''system''" "js ''assistant'' \<noteq> js ''system''"
  by (simp_all add: js_def)

lemma max_messages: "MAX_TURNS * 2 = 40"
  by (simp add: MAX_TURNS_def)

lemma slice_last_length: "length (slice_last n xs) = min n (length xs)"
  by (simp add: slice_last_def)

lemma slice_last_idem: "slice_last n (slice_last n xs) = slice_last n xs"
  by (simp add: slice_last_def)

lemma slice_last_suffix: "xs = take (length xs - n) xs @ slice_last n xs"
  by (simp add: slice_last_def)


lemma set_slice_last: "set (slice_last n xs) \<subseteq> set xs"
  unfolding slice_last_def by (rule set_drop_subset)

lemma suffix_of_length:
  assumes "xs = dropped @ kept"
  shows "kept = slice_last (length kept) xs"
  using assms by (simp add: slice_last_def)


lemma trimHistory_eq:
  "trimHistory messages = leading_system messages @ slice_last 40 (non_system messages)"
  by (simp add: trimHistory_def leading_system_def non_system_def is_system_def MAX_TURNS_def
      split: list.splits)

lemma slice_last_non_system:
  "\<forall>m \<in> set (slice_last n (non_system xs)). \<not> is_system m"
  using set_slice_last [of n "non_system xs"] by (auto simp: non_system_def)

lemma non_system_id: "\<forall>m \<in> set ys. \<not> is_system m \<Longrightarrow> non_system ys = ys"
  by (simp add: non_system_def filter_id_conv)

lemma non_system_leading: "non_system (leading_system xs) = []"
  by (simp add: leading_system_def non_system_def split: list.splits)

lemma non_system_append: "non_system (xs @ ys) = non_system xs @ non_system ys"
  by (simp add: non_system_def)

lemma non_system_trimHistory:
  "non_system (trimHistory messages) = slice_last 40 (non_system messages)"
  by (simp add: trimHistory_eq non_system_append non_system_leading
      non_system_id [OF slice_last_non_system])

lemma leading_system_none:
  "\<forall>m \<in> set ys. \<not> is_system m \<Longrightarrow> leading_system ys = []"
  by (cases ys) (simp_all add: leading_system_def)

lemma leading_system_trimHistory:
  "leading_system (trimHistory messages) = leading_system messages"
proof (cases "leading_system messages = []")
  case True
  then have "trimHistory messages = slice_last 40 (non_system messages)"
    by (simp add: trimHistory_eq)
  with True show ?thesis
    by (simp add: leading_system_none [OF slice_last_non_system])
next
  case False
  then obtain m where "leading_system messages = [m]" and "is_system m"
    by (auto simp: leading_system_def split: list.splits if_splits)
  then show ?thesis
    by (simp add: trimHistory_eq leading_system_def)
qed



lemma sample_roles:
  "\<not> is_system (user_msg n)" "\<not> is_system (assistant_msg n)" "is_system system_message"
  by (simp_all add: is_system_def user_msg_def assistant_msg_def system_message_def
      role_literals_distinct)

text \<open>
  Claim C6. Trimming is idempotent: for every sequence of messages \<open>seq\<close>, trimming
  the trimmed sequence gives the trimmed sequence again.
\<close>

theorem trimHistory_idempotent: "trimHistory (trimHistory seq) = trimHistory seq"
proof -
  have "trimHistory (trimHistory seq) =
        leading_system (trimHistory seq) @ slice_last 40 (non_system (trimHistory seq))"
    by (rule trimHistory_eq)
  also have "\<dots> = leading_system seq @ slice_last 40 (non_system seq)"
    by (simp add: leading_system_trimHistory non_system_trimHistory slice_last_idem)
  finally show ?thesis
    by (simp add: trimHistory_eq)
qed

theorem trimHistory_idempotent_witness:
  "trimHistory (trimHistory [system_message, user_msg 3, system_message, assistant_msg 4]) =
   [system_message, user_msg 3, assistant_msg 4]"
proof -
  have "trimHistory [system_message, user_msg 3, system_message, assistant_msg 4] =
        [system_message, user_msg 3, assistant_msg 4]"
    by (simp add: trimHistory_eq leading_system_def non_system_def sample_roles slice_last_def)
  with trimHistory_idempotent
    [of "[system_message, user_msg 3, system_message, assistant_msg 4]"]
  show ?thesis by simp
qed

text \<open>
  Claim C1. For every sequence of messages, \<open>trimHistory\<close> returns the leading system
  message (when the first message has role \<open>system\<close>), unchanged and first, followed by
  the most recent \<open>MAX_TURNS * 2\<close> (that is 40, lemma \<open>max_messages\<close>) messages of
  any other role in their original order: the other-role messages of the input are some
  dropped older ones followed by the kept ones, and the kept ones are all of them or 40.
\<close>

theorem trimHistory_contract:
  "\<exists>dropped kept.
     non_system messages = dropped @ kept \<and>
     length kept = min (MAX_TURNS * 2) (length (non_system messages)) \<and>
     trimHistory messages = leading_system messages @ kept"
proof (intro exI conjI)
  show "non_system messages =
        take (length (non_system messages) - 40) (non_system messages)
        @ slice_last 40 (non_system messages)"
    by (rule slice_last_suffix)
  show "length (slice_last 40 (non_system messages)) =
        min (MAX_TURNS * 2) (length (non_system messages))"
    by (simp add: slice_last_length max_messages)
  show "trimHistory messages = leading_system messages @ slice_last 40 (non_system messages)"
    by (rule trimHistory_eq)
qed

theorem trimHistory_contract_witness:
  "trimHistory (system_message # user_msg 3 # assistant_msg 4 # replicate 40 (user_msg 5)) =
   system_message # replicate 40 (user_msg 5)"
proof -
  let ?xs = "system_message # user_msg 3 # assistant_msg 4 # replicate 40 (user_msg 5)"
  have ns: "non_system ?xs = [user_msg 3, assistant_msg 4] @ replicate 40 (user_msg 5)"
    by (simp add: non_system_def sample_roles)
  have ld: "leading_system ?xs = [system_message]"
    by (simp add: leading_system_def sample_roles)
  from trimHistory_contract [of ?xs] obtain dropped kept
    where split: "non_system ?xs = dropped @ kept"
      and len: "length kept = min (MAX_TURNS * 2) (length (non_system ?xs))"
      and out: "trimHistory ?xs = leading_system ?xs @ kept"
    by blast
  from len have "length kept = 40"
    by (simp add: ns max_messages)
  with suffix_of_length [OF split]
  have "kept = slice_last 40 ([user_msg 3, assistant_msg 4] @ replicate 40 (user_msg 5))"
    by (simp add: ns)
  also have "\<dots> = replicate 40 (user_msg 5)"
    by (simp add: slice_last_def)
  finally show ?thesis
    using out ld by simp
qed




section \<open>Properties of the chat store\<close>

lemma chats_has_get: "chats_has k chats \<longleftrightarrow> chats_get k chats \<noteq> None"
  by (simp add: chats_has_def chats_get_def map_of_eq_None_iff)

lemma chats_get_set:
  "chats_get k' (chats_set k v chats) = (if k' = k then Some v else chats_get k' chats)"
  by (induction chats) (auto simp: chats_get_def)

lemma chats_keys_set:
  "chats_keys (chats_set k v chats) =
     (if chats_has k chats then chats_keys chats else chats_keys chats @ [k])"
  by (induction chats) (auto simp: chats_keys_def chats_has_def)

lemma set_chats_set: "set (chats_set k v chats) \<subseteq> insert (k, v) (set chats)"
  by (induction chats) auto

lemma chats_get_delete:
  "chats_get k' (chats_delete k chats) = (if k' = k then None else chats_get k' chats)"
  by (induction chats) (auto simp: chats_get_def chats_delete_def)

lemma chats_keys_delete: "chats_keys (chats_delete k chats) = removeAll k (chats_keys chats)"
  by (induction chats) (auto simp: chats_keys_def chats_delete_def)

lemma chats_has_keys: "chats_has k chats \<longleftrightarrow> k \<in> set (chats_keys chats)"
  by (simp add: chats_has_def chats_keys_def)

lemma distinct_keys_set:
  "distinct (chats_keys chats) \<Longrightarrow> distinct (chats_keys (chats_set k v chats))"
  by (simp add: chats_keys_set chats_has_keys)

lemma distinct_keys_delete:
  "distinct (chats_keys chats) \<Longrightarrow> distinct (chats_keys (chats_delete k chats))"
  by (simp add: chats_keys_delete distinct_removeAll)

lemma getOrCreateChat_result:
  "getOrCreateChat k chats =
     (if chats_has k chats then (chats_get k chats, chats)
      else (Some [system_message], chats_set k [system_message] chats))"
  by (simp add: getOrCreateChat_def Let_def chats_get_set)

section \<open>Request validation\<close>

lemma typeof_string: "typeof v = js ''string'' \<longleftrightarrow> (\<exists>s. v = Str s)"
  by (cases v) (simp_all add: js_def)

lemma valid_field: "truthy v \<and> typeof v = js ''string'' \<longleftrightarrow> (\<exists>s. v = Str s \<and> s \<noteq> [])"
  by (cases v) (simp_all add: js_def)

lemma error_literals_distinct: "js ''chatId is required'' \<noteq> js ''message is required''"
  by (simp add: js_def)

lemma post_chat_begin_invalid_chatId:
  "\<not> (\<exists>s. request_field req_body (js ''chatId'') = Str s \<and> s \<noteq> []) \<Longrightarrow>
   post_chat_begin req_body chats = (Answered (400, ErrorJson (js ''chatId is required'')), chats)"
  unfolding post_chat_begin_def Let_def valid_field [symmetric] by simp

lemma post_chat_begin_invalid_message:
  "request_field req_body (js ''chatId'') = Str cid \<Longrightarrow> cid \<noteq> [] \<Longrightarrow>
   \<not> (\<exists>s. request_field req_body (js ''message'') = Str s \<and> s \<noteq> []) \<Longrightarrow>
   post_chat_begin req_body chats = (Answered (400, ErrorJson (js ''message is required'')), chats)"
  unfolding post_chat_begin_def Let_def valid_field [symmetric] by simp

lemma post_chat_begin_valid:
  assumes "request_field req_body (js ''chatId'') = Str cid" and "cid \<noteq> []"
    and "request_field req_body (js ''message'') = Str msg" and "msg \<noteq> []"
  shows "post_chat_begin req_body chats =
     (AwaitUpstream cid
        (Some (trimHistory (history_of cid chats @ [\<lparr>role = js ''user'', content = msg\<rparr>]))),
      chats_set cid (trimHistory (history_of cid chats @ [\<lparr>role = js ''user'', content = msg\<rparr>]))
        (store_of cid chats))"
proof (cases "chats_has cid chats")
  case True
  then obtain h where h: "chats_get cid chats = Some h"
    by (auto simp: chats_has_get)
  with True assms show ?thesis
    by (simp add: post_chat_begin_def Let_def getOrCreateChat_result history_of_def
        store_of_def chats_get_set js_def)
next
  case False
  then have "chats_get cid chats = None"
    by (simp add: chats_has_get)
  with False assms show ?thesis
    by (simp add: post_chat_begin_def Let_def getOrCreateChat_result history_of_def
        store_of_def chats_get_set js_def)
qed


lemma last_trimHistory_snoc:
  assumes "\<not> is_system m"
  shows "trimHistory (xs @ [m]) \<noteq> [] \<and> last (trimHistory (xs @ [m])) = m"
proof -
  have "slice_last 40 (non_system (xs @ [m])) =
        drop (length (non_system xs) + 1 - 40) (non_system xs) @ [m]"
    using assms by (simp add: non_system_def slice_last_def)
  then show ?thesis
    by (simp add: trimHistory_eq)
qed

lemma user_not_system: "\<not> is_system \<lparr>role = js ''user'', content = c\<rparr>"
  by (simp add: is_system_def role_literals_distinct)

lemma assistant_not_system: "\<not> is_system \<lparr>role = js ''assistant'', content = c\<rparr>"
  by (simp add: is_system_def role_literals_distinct)

lemma post_chat_resume_rejected: "post_chat_resume k Rejected chats = (server_error, chats)"
  by (simp add: post_chat_resume_def)

lemma js_trim_blank:
  assumes "list_all is_js_space s"
  shows "js_trim s = []"
proof -
  from assms have e: "dropWhile is_js_space s = []"
    unfolding list_all_iff by (simp only: dropWhile_eq_Nil_conv)
  show ?thesis
    unfolding js_trim_def e by simp
qed

lemma chat_reply_blank:
  "blank_content (completion_content completion) \<Longrightarrow> chat_reply completion = Inr FALLBACK_REPLY"
  by (cases "completion_content completion") (simp_all add: chat_reply_def js_trim_blank)

lemma post_chat_resume_blank:
  assumes "blank_content (completion_content completion)"
    and "chats_get k chats = Some updated"
  shows "post_chat_resume k (Resolved completion) chats =
     ((200, ReplyJson FALLBACK_REPLY),
      chats_set k (trimHistory (updated @ [\<lparr>role = js ''assistant'', content = FALLBACK_REPLY\<rparr>]))
        chats)"
  using assms by (simp add: post_chat_resume_def chat_reply_blank)

text \<open>
  Claim C5. A \<open>POST /api/chat\<close> whose \<open>chatId\<close> or \<open>message\<close> field is missing
  or not a string is answered with status 400 and the error of the first field that fails
  (\<open>chatId is required\<close> unless the chat id is a non-empty string, then
  \<open>message is required\<close>) before anything is changed: the handler answers without
  reaching the upstream call, the store is as it was, and so is the list of chat ids.
\<close>

theorem post_chat_validation:
  assumes "(\<forall>s. request_field req_body (js ''chatId'') \<noteq> Str s)
         \<or> (\<forall>s. request_field req_body (js ''message'') \<noteq> Str s)"
  shows "\<exists>err.
     err = (if \<exists>s. request_field req_body (js ''chatId'') = Str s \<and> s \<noteq> []
            then js ''message is required'' else js ''chatId is required'')
     \<and> post_chat_begin req_body chats = (Answered (400, ErrorJson err), chats)
     \<and> post_chat upstream req_body chats = ((400, ErrorJson err), chats)
     \<and> list_chats (snd (post_chat upstream req_body chats)) = list_chats chats"
proof (cases "\<exists>s. request_field req_body (js ''chatId'') = Str s \<and> s \<noteq> []")
  case True
  then obtain cid where cid: "request_field req_body (js ''chatId'') = Str cid" "cid \<noteq> []"
    by blast
  with assms have "\<not> (\<exists>s. request_field req_body (js ''message'') = Str s \<and> s \<noteq> [])"
    by auto
  from post_chat_begin_invalid_message [OF cid this] True show ?thesis
    by (simp add: post_chat_def)
next
  case False
  from post_chat_begin_invalid_chatId [OF this]
  have "post_chat_begin req_body chats =
          (Answered (400, ErrorJson (js ''chatId is required'')), chats)" .
  with False show ?thesis
    by (auto simp: post_chat_def)
qed

theorem post_chat_validation_witness:
  "post_chat (\<lambda>sent. Resolved Null) (Obj [(js ''chatId'', Str (js ''c1''))]) [] =
     ((400, ErrorJson (js ''message is required'')), [])
   \<and> post_chat (\<lambda>sent. Resolved Null) (Obj [(js ''chatId'', Num 7), (js ''message'', Str (js ''hi''))]) [] =
     ((400, ErrorJson (js ''chatId is required'')), [])
   \<and> list_chats (snd (post_chat (\<lambda>sent. Resolved Null) (Obj [(js ''chatId'', Str (js ''c1''))]) [])) =
     (200, ChatIdsJson [])"
proof -
  have m: "request_field (Obj [(js ''chatId'', Str (js ''c1''))]) (js ''message'') = Undefined"
    and c: "request_field (Obj [(js ''chatId'', Str (js ''c1''))]) (js ''chatId'') = Str (js ''c1'')"
    by (simp_all add: request_field_def js_def)
  have n: "request_field (Obj [(js ''chatId'', Num 7), (js ''message'', Str (js ''hi''))])
             (js ''chatId'') = Num 7"
    by (simp add: request_field_def js_def)
  have "js ''c1'' \<noteq> []"
    by (simp add: js_def)
  with post_chat_validation [of "Obj [(js ''chatId'', Str (js ''c1''))]" "[]" "\<lambda>sent. Resolved Null"]
    post_chat_validation
      [of "Obj [(js ''chatId'', Num 7), (js ''message'', Str (js ''hi''))]" "[]" "\<lambda>sent. Resolved Null"]
  show ?thesis
    by (simp add: m c n list_chats_def chats_keys_def)
qed

text \<open>
  Claim C10. A \<open>chatId\<close> or \<open>message\<close> that is a string but the empty one is
  rejected as an absent field is: status 400 with \<open>chatId is required\<close> for an empty
  chat id, and for an empty message \<open>message is required\<close> (or the chat id's error,
  when the chat id fails too), the store unchanged.
\<close>

theorem post_chat_empty_string:
  "(request_field req_body (js ''chatId'') = Str [] \<longrightarrow>
      post_chat_begin req_body chats =
        (Answered (400, ErrorJson (js ''chatId is required'')), chats)
      \<and> post_chat upstream req_body chats = ((400, ErrorJson (js ''chatId is required'')), chats))
   \<and> (request_field req_body (js ''message'') = Str [] \<longrightarrow>
      (\<exists>err. err = (if \<exists>s. request_field req_body (js ''chatId'') = Str s \<and> s \<noteq> []
                     then js ''message is required'' else js ''chatId is required'')
         \<and> post_chat_begin req_body chats = (Answered (400, ErrorJson err), chats)
         \<and> post_chat upstream req_body chats = ((400, ErrorJson err), chats)))"
proof (intro conjI impI)
  assume "request_field req_body (js ''chatId'') = Str []"
  then have "\<not> (\<exists>s. request_field req_body (js ''chatId'') = Str s \<and> s \<noteq> [])"
    by simp
  from post_chat_begin_invalid_chatId [OF this]
  show "post_chat_begin req_body chats =
          (Answered (400, ErrorJson (js ''chatId is required'')), chats)"
    and "post_chat upstream req_body chats = ((400, ErrorJson (js ''chatId is required'')), chats)"
    by (simp_all add: post_chat_def)
next
  assume "request_field req_body (js ''message'') = Str []"
  then have m: "\<not> (\<exists>s. request_field req_body (js ''message'') = Str s \<and> s \<noteq> [])"
    by simp
  show "\<exists>err. err = (if \<exists>s. request_field req_body (js ''chatId'') = Str s \<and> s \<noteq> []
                      then js ''message is required'' else js ''chatId is required'')
         \<and> post_chat_begin req_body chats = (Answered (400, ErrorJson err), chats)
         \<and> post_chat upstream req_body chats = ((400, ErrorJson err), chats)"
  proof (cases "\<exists>s. request_field req_body (js ''chatId'') = Str s \<and> s \<noteq> []")
    case True
    then obtain cid where cid: "request_field req_body (js ''chatId'') = Str cid" "cid \<noteq> []"
      by blast
    from post_chat_begin_invalid_message [OF cid m] True show ?thesis
      by (simp add: post_chat_def)
  next
    case False
    from post_chat_begin_invalid_chatId [OF this]
    have "post_chat_begin req_body chats =
            (Answered (400, ErrorJson (js ''chatId is required'')), chats)" .
    with False show ?thesis
      by (auto simp: post_chat_def)
  qed
qed

theorem post_chat_empty_string_witness:
  "post_chat (\<lambda>sent. Resolved Null) (post_body [] ''hi'') [] = ((400, ErrorJson (js ''chatId is required'')), [])
   \<and> post_chat (\<lambda>sent. Resolved Null) (post_body ''c1'' []) [] =
       ((400, ErrorJson (js ''message is required'')), [])"
proof -
  have a: "request_field (post_body [] ''hi'') (js ''chatId'') = Str []"
    and b: "request_field (post_body ''c1'' []) (js ''chatId'') = Str (js ''c1'')"
    and c: "request_field (post_body ''c1'' []) (js ''message'') = Str []"
    and d: "js ''c1'' \<noteq> []"
    by (simp_all add: request_field_def post_body_def js_def)
  from post_chat_empty_string [of "post_body [] ''hi''" "[]" "\<lambda>sent. Resolved Null"]
    post_chat_empty_string [of "post_body ''c1'' []" "[]" "\<lambda>sent. Resolved Null"]
  show ?thesis
    by (simp add: a b c d)
qed


text \<open>
  Claim C7. \<open>DELETE /api/chat/:chatId\<close>, for the non-empty chat id the route hands
  over: a chat that exists is removed (the others stay as they are) and the answer is 200
  \<open>{ok: true}\<close>; for one that does not exist the answer is 404 \<open>Chat not found\<close> and
  the store is unchanged; hence deleting the same chat id a second time gives 404.
\<close>

theorem delete_chat_responses:
  assumes "chatId \<noteq> []"
  shows "(chats_has chatId chats \<longrightarrow>
            delete_chat chatId chats = ((200, OkJson True), chats_delete chatId chats)
            \<and> \<not> chats_has chatId (chats_delete chatId chats)
            \<and> (\<forall>k. k \<noteq> chatId \<longrightarrow> chats_get k (chats_delete chatId chats) = chats_get k chats))
       \<and> (\<not> chats_has chatId chats \<longrightarrow>
            delete_chat chatId chats = ((404, ErrorJson (js ''Chat not found'')), chats))
       \<and> delete_chat chatId (snd (delete_chat chatId chats)) =
            ((404, ErrorJson (js ''Chat not found'')), snd (delete_chat chatId chats))"
proof -
  have gone: "\<not> chats_has chatId (chats_delete chatId chats)"
    by (simp add: chats_has_get chats_get_delete)
  have absent: "delete_chat chatId c = ((404, ErrorJson (js ''Chat not found'')), c)"
    if "\<not> chats_has chatId c" for c
    using that assms by (simp add: delete_chat_def)
  have present: "delete_chat chatId chats = ((200, OkJson True), chats_delete chatId chats)"
    if "chats_has chatId chats"
    using that assms by (simp add: delete_chat_def)
  have again: "\<not> chats_has chatId (snd (delete_chat chatId chats))"
    using gone by (cases "chats_has chatId chats") (simp_all add: present absent)
  show ?thesis
    using gone present absent [of chats] absent [OF again]
    by (simp add: chats_get_delete)
qed

theorem delete_chat_responses_witness:
  "delete_chat (js ''c1'') [(js ''c1'', [system_message])] = ((200, OkJson True), [])
   \<and> delete_chat (js ''c1'') [] = ((404, ErrorJson (js ''Chat not found'')), [])"
proof -
  have ne: "js ''c1'' \<noteq> []"
    by (simp add: js_def)
  have has: "chats_has (js ''c1'') [(js ''c1'', [system_message])]"
    and hasnt: "\<not> chats_has (js ''c1'') []"
    and del: "chats_delete (js ''c1'') [(js ''c1'', [system_message])] = []"
    by (simp_all add: chats_has_def chats_delete_def)
  from delete_chat_responses [OF ne, of "[(js ''c1'', [system_message])]"]
    delete_chat_responses [OF ne, of "[]"] has hasnt
  show ?thesis
    by (simp add: del)
qed

text \<open>
  Claim C4. A \<open>POST /api/chat\<close> with a valid chat id and message whose upstream call
  throws is answered with 500 \<open>Server error\<close>, and the user's message stays stored as
  the last message of the chat, which therefore is listed afterwards. Nothing is rolled
  back: the failing handler leaves whatever store it is resumed in as it finds it.
\<close>

theorem post_chat_upstream_failure:
  assumes "request_field req_body (js ''chatId'') = Str chatId" and "chatId \<noteq> []"
    and "request_field req_body (js ''message'') = Str message" and "message \<noteq> []"
    and "upstream (Some (trimHistory (history_of chatId chats
            @ [\<lparr>role = js ''user'', content = message\<rparr>]))) = Rejected"
  shows "\<exists>chats' history ids.
           post_chat upstream req_body chats = ((500, ErrorJson (js ''Server error'')), chats')
           \<and> chats_get chatId chats' = Some history
           \<and> history \<noteq> [] \<and> last history = \<lparr>role = js ''user'', content = message\<rparr>
           \<and> list_chats chats' = (200, ChatIdsJson ids) \<and> chatId \<in> set ids
           \<and> (\<forall>later. post_chat_resume chatId Rejected later =
                  ((500, ErrorJson (js ''Server error'')), later))"
proof -
  let ?u = "\<lparr>role = js ''user'', content = message\<rparr>"
  let ?sent = "trimHistory (history_of chatId chats @ [?u])"
  let ?chats' = "chats_set chatId ?sent (store_of chatId chats)"
  have run: "post_chat upstream req_body chats = ((500, ErrorJson (js ''Server error'')), ?chats')"
    using assms(5)
    by (simp add: post_chat_def post_chat_begin_valid [OF assms(1-4)]
        post_chat_resume_rejected server_error_def)
  have stored: "chats_get chatId ?chats' = Some ?sent"
    by (simp add: chats_get_set)
  have kept: "?sent \<noteq> [] \<and> last ?sent = ?u"
    by (rule last_trimHistory_snoc [OF user_not_system])
  have listed: "chatId \<in> set (chats_keys ?chats')"
    using stored by (simp add: chats_has_keys [symmetric] chats_has_get)
  have resumed: "\<forall>later. post_chat_resume chatId Rejected later =
                  ((500, ErrorJson (js ''Server error'')), later)"
    by (simp add: post_chat_resume_rejected server_error_def)
  from run stored kept listed resumed show ?thesis
    unfolding list_chats_def by blast
qed

theorem post_chat_upstream_failure_witness:
  "\<exists>chats'. post_chat (\<lambda>sent. Rejected) (post_body ''c1'' ''hi'') [] =
              ((500, ErrorJson (js ''Server error'')), chats')
     \<and> (\<exists>history. chats_get (js ''c1'') chats' = Some history
           \<and> last history = \<lparr>role = js ''user'', content = js ''hi''\<rparr>)
     \<and> (\<exists>ids. list_chats chats' = (200, ChatIdsJson ids) \<and> js ''c1'' \<in> set ids)"
proof -
  have f: "request_field (post_body ''c1'' ''hi'') (js ''chatId'') = Str (js ''c1'')"
    "js ''c1'' \<noteq> []"
    "request_field (post_body ''c1'' ''hi'') (js ''message'') = Str (js ''hi'')"
    "js ''hi'' \<noteq> []"
    by (simp_all add: request_field_def post_body_def js_def)
  from post_chat_upstream_failure [of "post_body ''c1'' ''hi''" "js ''c1''" "js ''hi''"
      "\<lambda>sent. Rejected" "[]", OF f refl]
  show ?thesis
    by blast
qed

text \<open>
  A request served in one piece, with a valid chat id and message, whose upstream call
  succeeds with a reply content that is absent, empty or white space only: the answer is
  200 with the fallback string, stored as the assistant message that ends the chat.
\<close>

lemma post_chat_blank_in_one_piece:
  assumes "request_field req_body (js ''chatId'') = Str chatId" and "chatId \<noteq> []"
    and "request_field req_body (js ''message'') = Str message" and "message \<noteq> []"
    and "upstream (Some (trimHistory (history_of chatId chats
            @ [\<lparr>role = js ''user'', content = message\<rparr>]))) = Resolved completion"
    and "blank_content (completion_content completion)"
  shows "\<exists>chats' history.
           post_chat upstream req_body chats = ((200, ReplyJson FALLBACK_REPLY), chats')
           \<and> chats_get chatId chats' = Some history
           \<and> history \<noteq> []
           \<and> last history = \<lparr>role = js ''assistant'', content = FALLBACK_REPLY\<rparr>
           \<and> chat_reply completion = Inr FALLBACK_REPLY"
proof -
  let ?u = "\<lparr>role = js ''user'', content = message\<rparr>"
  let ?a = "\<lparr>role = js ''assistant'', content = FALLBACK_REPLY\<rparr>"
  let ?sent = "trimHistory (history_of chatId chats @ [?u])"
  let ?chats1 = "chats_set chatId ?sent (store_of chatId chats)"
  let ?chats' = "chats_set chatId (trimHistory (?sent @ [?a])) ?chats1"
  have stored1: "chats_get chatId ?chats1 = Some ?sent"
    by (simp add: chats_get_set)
  have run: "post_chat upstream req_body chats = ((200, ReplyJson FALLBACK_REPLY), ?chats')"
    using assms(5)
    by (simp add: post_chat_def post_chat_begin_valid [OF assms(1-4)]
        post_chat_resume_blank [OF assms(6) stored1])
  have stored: "chats_get chatId ?chats' = Some (trimHistory (?sent @ [?a]))"
    by (simp add: chats_get_set)
  have kept: "trimHistory (?sent @ [?a]) \<noteq> [] \<and> last (trimHistory (?sent @ [?a])) = ?a"
    by (rule last_trimHistory_snoc [OF assistant_not_system])
  from run stored kept chat_reply_blank [OF assms(6)] show ?thesis
    by blast
qed


section \<open>Invariants of the chat store\<close>

lemma chat_ok_iff:
  "chat_ok msgs \<longleftrightarrow>
     (\<exists>rest. msgs = system_message # rest \<and> (\<forall>m \<in> set rest. \<not> is_system m) \<and> length rest \<le> 40)"
  by (cases msgs) (auto simp: chat_ok_def list_all_iff max_messages)

lemma chat_ok_initial: "chat_ok [system_message]"
  by (simp add: chat_ok_iff)

lemma chat_ok_push_trim:
  assumes "chat_ok msgs" and "\<not> is_system m"
  shows "chat_ok (trimHistory (msgs @ [m]))"
proof -
  from assms(1) obtain rest where msgs: "msgs = system_message # rest"
    and rest: "\<forall>m \<in> set rest. \<not> is_system m"
    by (auto simp: chat_ok_iff)
  have "leading_system (msgs @ [m]) = [system_message]"
    by (simp add: msgs leading_system_def sample_roles)
  then have "trimHistory (msgs @ [m]) = system_message # slice_last 40 (non_system (msgs @ [m]))"
    by (simp add: trimHistory_eq)
  then show ?thesis
    using slice_last_non_system [of 40 "msgs @ [m]"]
    by (simp add: chat_ok_iff slice_last_length)
qed

lemma store_ok_iff: "store_ok chats \<longleftrightarrow> (\<forall>(k, msgs) \<in> set chats. chat_ok msgs)"
  by (auto simp: store_ok_def list_all_iff)

lemma store_ok_get: "store_ok chats \<Longrightarrow> chats_get k chats = Some msgs \<Longrightarrow> chat_ok msgs"
  by (auto simp: store_ok_iff chats_get_def dest: map_of_SomeD)

lemma store_ok_set: "store_ok chats \<Longrightarrow> chat_ok msgs \<Longrightarrow> store_ok (chats_set k msgs chats)"
  using set_chats_set [of k msgs chats] by (auto simp: store_ok_iff)

lemma store_ok_delete: "store_ok chats \<Longrightarrow> store_ok (chats_delete k chats)"
  by (auto simp: store_ok_iff chats_delete_def)

lemma chat_ok_history_of: "store_ok chats \<Longrightarrow> chat_ok (history_of k chats)"
  by (auto simp: history_of_def chat_ok_initial split: option.splits dest: store_ok_get)

lemma store_ok_store_of: "store_ok chats \<Longrightarrow> store_ok (store_of k chats)"
  by (simp add: store_of_def store_ok_set chat_ok_initial)

lemma store_ok_post_chat_begin:
  assumes "store_ok chats"
  shows "store_ok (snd (post_chat_begin req_body chats))"
proof (cases "\<exists>s. request_field req_body (js ''chatId'') = Str s \<and> s \<noteq> []")
  case False
  from post_chat_begin_invalid_chatId [OF this] assms show ?thesis
    by simp
next
  case True
  then obtain cid where cid: "request_field req_body (js ''chatId'') = Str cid" "cid \<noteq> []"
    by blast
  show ?thesis
  proof (cases "\<exists>s. request_field req_body (js ''message'') = Str s \<and> s \<noteq> []")
    case False
    from post_chat_begin_invalid_message [OF cid this] assms show ?thesis
      by simp
  next
    case True
    then obtain msg where msg: "request_field req_body (js ''message'') = Str msg" "msg \<noteq> []"
      by blast
    show ?thesis
      using assms
      by (simp add: post_chat_begin_valid [OF cid msg] store_ok_set store_ok_store_of
          chat_ok_push_trim chat_ok_history_of user_not_system)
  qed
qed

lemma store_ok_post_chat_resume:
  assumes "store_ok chats"
  shows "store_ok (snd (post_chat_resume k outcome chats))"
proof -
  have "store_ok (chats_set k (trimHistory (updated @ [\<lparr>role = js ''assistant'', content = r\<rparr>]))
          chats)"
    if "chats_get k chats = Some updated" for updated r
    by (intro store_ok_set chat_ok_push_trim assistant_not_system assms
        store_ok_get [OF assms that])
  with assms show ?thesis
    by (simp add: post_chat_resume_def
        split: upstream_result.splits sum.splits option.splits)
qed

lemma store_ok_delete_chat: "store_ok chats \<Longrightarrow> store_ok (snd (delete_chat k chats))"
  by (simp add: delete_chat_def store_ok_delete)

lemma store_ok_step:
  assumes "store_ok (store s)"
  shows "store_ok (store (snd (step s e)))"
proof (cases e)
  case (Delete k)
  with store_ok_delete_chat [OF assms, of k] show ?thesis
    by (cases "delete_chat k (store s)") simp
next
  case (Post b)
  with store_ok_post_chat_begin [OF assms, of b] show ?thesis
    by (cases "post_chat_begin b (store s)") (simp split: post_progress.splits)
next
  case (Resume i outcome)
  with store_ok_post_chat_resume [OF assms, of "suspended s ! i" outcome] show ?thesis
    by (cases "post_chat_resume (suspended s ! i) outcome (store s)") (simp add: assms)
qed (use assms in simp_all)

lemma foldl_invariant:
  assumes "P s" and "\<And>s e. P s \<Longrightarrow> P (f s e)"
  shows "P (foldl f s es)"
  using assms(1) by (induction es arbitrary: s) (simp_all add: assms(2))

lemma store_ok_run: "store_ok (store (run events))"
  unfolding run_def
proof (rule foldl_invariant [where P = "\<lambda>s::server_state. store_ok (store s)"])
  show "store_ok (store initial_state)"
    by (simp add: initial_state_def store_ok_def)
next
  fix s :: server_state and e
  assume "store_ok (store s)"
  then show "store_ok (store (snd (step s e)))"
    by (rule store_ok_step)
qed

lemma chat_ok_run: "(k, msgs) \<in> set (store (run events)) \<Longrightarrow> chat_ok msgs"
  using store_ok_run [of events] by (auto simp: store_ok_iff)

lemma run_single_post:
  "store (run [Post (post_body ''c1'' ''hi'')]) =
     [(js ''c1'', [system_message, \<lparr>role = js ''user'', content = js ''hi''\<rparr>])]"
proof -
  have f: "request_field (post_body ''c1'' ''hi'') (js ''chatId'') = Str (js ''c1'')"
    "js ''c1'' \<noteq> []"
    "request_field (post_body ''c1'' ''hi'') (js ''message'') = Str (js ''hi'')"
    "js ''hi'' \<noteq> []"
    by (simp_all add: request_field_def post_body_def js_def)
  have t: "trimHistory [system_message, \<lparr>role = js ''user'', content = js ''hi''\<rparr>] =
           [system_message, \<lparr>role = js ''user'', content = js ''hi''\<rparr>]"
    by (simp add: trimHistory_eq leading_system_def non_system_def sample_roles
        user_not_system slice_last_def)
  show ?thesis
    by (simp add: run_def initial_state_def post_chat_begin_valid [OF f] history_of_def
        store_of_def chats_get_def chats_has_def t)
qed

text \<open>
  Claim C2. In every state the server reaches, whatever the requests, their interleaving at
  the upstream call and the outcomes of those calls, every stored chat is non-empty and
  begins with the system prompt, which is its only message of role \<open>system\<close>; and
  trimming the chat, with whatever messages pushed onto it, keeps that message first.
\<close>

theorem system_prompt_first:
  assumes "(chatId, msgs) \<in> set (store (run events))"
  shows "msgs \<noteq> [] \<and> hd msgs = system_message
       \<and> filter is_system msgs = [system_message]
       \<and> (\<forall>more. trimHistory (msgs @ more) \<noteq> []
                 \<and> hd (trimHistory (msgs @ more)) = system_message)"
proof -
  from chat_ok_run [OF assms] obtain rest where msgs: "msgs = system_message # rest"
    and rest: "\<forall>m \<in> set rest. \<not> is_system m"
    by (auto simp: chat_ok_iff)
  have "leading_system (msgs @ more) = [system_message]" for more
    by (simp add: msgs leading_system_def sample_roles)
  then have "trimHistory (msgs @ more) \<noteq> [] \<and> hd (trimHistory (msgs @ more)) = system_message"
    for more
    by (simp add: trimHistory_eq)
  moreover have "filter is_system msgs = [system_message]"
    using rest by (simp add: msgs sample_roles filter_empty_conv)
  ultimately show ?thesis
    by (simp add: msgs)
qed

theorem system_prompt_first_witness:
  "hd [system_message, \<lparr>role = js ''user'', content = js ''hi''\<rparr>] = system_message
   \<and> filter is_system [system_message, \<lparr>role = js ''user'', content = js ''hi''\<rparr>] =
       [system_message]
   \<and> hd (trimHistory ([system_message, \<lparr>role = js ''user'', content = js ''hi''\<rparr>]
           @ replicate 50 (user_msg 3))) = system_message"
proof -
  have "(js ''c1'', [system_message, \<lparr>role = js ''user'', content = js ''hi''\<rparr>])
          \<in> set (store (run [Post (post_body ''c1'' ''hi'')]))"
    by (simp add: run_single_post)
  from system_prompt_first [OF this] show ?thesis
    by blast
qed

text \<open>
  Claim C3. In every state the server reaches between two handler steps, every stored chat
  holds at most \<open>MAX_TURNS * 2\<close> = 40 messages whose role is not \<open>system\<close>.
\<close>

theorem non_system_bounded:
  assumes "(chatId, msgs) \<in> set (store (run events))"
  shows "length (non_system msgs) \<le> MAX_TURNS * 2"
proof -
  from chat_ok_run [OF assms] obtain rest where msgs: "msgs = system_message # rest"
    and rest: "\<forall>m \<in> set rest. \<not> is_system m" and len: "length rest \<le> 40"
    by (auto simp: chat_ok_iff)
  from rest have "non_system msgs = rest"
    by (simp add: msgs non_system_def sample_roles filter_id_conv)
  with len show ?thesis
    by (simp add: max_messages)
qed

theorem non_system_bounded_witness:
  "length (non_system [system_message, \<lparr>role = js ''user'', content = js ''hi''\<rparr>])
     \<le> MAX_TURNS * 2"
proof -
  have "(js ''c1'', [system_message, \<lparr>role = js ''user'', content = js ''hi''\<rparr>])
          \<in> set (store (run [Post (post_body ''c1'' ''hi'')]))"
    by (simp add: run_single_post)
  from non_system_bounded [OF this] show ?thesis .
qed


lemma distinct_keys_post_chat_begin:
  assumes "distinct (chats_keys chats)"
  shows "distinct (chats_keys (snd (post_chat_begin req_body chats)))"
proof (cases "\<exists>s. request_field req_body (js ''chatId'') = Str s \<and> s \<noteq> []")
  case False
  from post_chat_begin_invalid_chatId [OF this] assms show ?thesis
    by simp
next
  case True
  then obtain cid where cid: "request_field req_body (js ''chatId'') = Str cid" "cid \<noteq> []"
    by blast
  show ?thesis
  proof (cases "\<exists>s. request_field req_body (js ''message'') = Str s \<and> s \<noteq> []")
    case False
    from post_chat_begin_invalid_message [OF cid this] assms show ?thesis
      by simp
  next
    case True
    then obtain msg where msg: "request_field req_body (js ''message'') = Str msg" "msg \<noteq> []"
      by blast
    show ?thesis
      using assms
      by (simp add: post_chat_begin_valid [OF cid msg] distinct_keys_set store_of_def)
  qed
qed

lemma distinct_keys_post_chat_resume:
  "distinct (chats_keys chats) \<Longrightarrow>
   distinct (chats_keys (snd (post_chat_resume k outcome chats)))"
  by (simp add: post_chat_resume_def distinct_keys_set
      split: upstream_result.splits sum.splits option.splits)

lemma distinct_keys_step:
  assumes "distinct (chats_keys (store s))"
  shows "distinct (chats_keys (store (snd (step s e))))"
proof (cases e)
  case (Delete k)
  with assms show ?thesis
    by (simp add: delete_chat_def distinct_keys_delete)
next
  case (Post b)
  with distinct_keys_post_chat_begin [OF assms, of b] show ?thesis
    by (cases "post_chat_begin b (store s)") (simp split: post_progress.splits)
next
  case (Resume i outcome)
  with distinct_keys_post_chat_resume [OF assms, of "suspended s ! i" outcome] show ?thesis
    by (cases "post_chat_resume (suspended s ! i) outcome (store s)") (simp add: assms)
qed (use assms in simp_all)

lemma distinct_keys_run: "distinct (chats_keys (store (run events)))"
  unfolding run_def
proof (rule foldl_invariant [where P = "\<lambda>s::server_state. distinct (chats_keys (store s))"])
  show "distinct (chats_keys (store initial_state))"
    by (simp add: initial_state_def chats_keys_def)
next
  fix s :: server_state and e
  assume "distinct (chats_keys (store s))"
  then show "distinct (chats_keys (store (snd (step s e))))"
    by (rule distinct_keys_step)
qed


section \<open>Successive requests\<close>

lemma slice_last_append_again:
  "slice_last n (slice_last n xs @ ys) = slice_last n (xs @ ys)"
proof -
  have "length xs + length ys - (length xs - n + n) + (length xs - n) =
        length xs + length ys - n"
    by arith
  then show ?thesis
    by (simp add: slice_last_def)
qed

lemma chats_set_twice: "chats_set k v (chats_set k v' chats) = chats_set k v chats"
  by (induction chats) auto

lemma trimHistory_ok:
  assumes "\<forall>m \<in> set rest. \<not> is_system m"
  shows "trimHistory (system_message # rest) = system_message # slice_last 40 rest"
  using assms
  by (simp add: trimHistory_eq leading_system_def sample_roles non_system_def filter_id_conv)

lemma post_chat_exchange:
  assumes "request_field req_body (js ''chatId'') = Str cid" and "cid \<noteq> []"
    and "request_field req_body (js ''message'') = Str msg" and "msg \<noteq> []"
    and "\<And>sent. upstream sent = Resolved completion"
    and "chat_reply completion = Inr reply"
    and "history_of cid chats = system_message # rest"
    and "\<forall>m \<in> set rest. \<not> is_system m"
  shows "post_chat upstream req_body chats =
     ((200, ReplyJson reply),
      chats_set cid (system_message # slice_last 40 (rest @ turn msg reply)) (store_of cid chats))"
proof -
  let ?u = "\<lparr>role = js ''user'', content = msg\<rparr>"
  let ?a = "\<lparr>role = js ''assistant'', content = reply\<rparr>"
  have u: "\<forall>m \<in> set (rest @ [?u]). \<not> is_system m"
    using assms(8) by (simp add: user_not_system)
  have s1: "trimHistory (history_of cid chats @ [?u]) = system_message # slice_last 40 (rest @ [?u])"
    using trimHistory_ok [OF u] by (simp add: assms(7))
  have a: "\<forall>m \<in> set (slice_last 40 (rest @ [?u]) @ [?a]). \<not> is_system m"
    using u set_slice_last [of 40 "rest @ [?u]"] by (auto simp: assistant_not_system)
  have s2: "trimHistory (system_message # (slice_last 40 (rest @ [?u]) @ [?a])) =
            system_message # slice_last 40 (rest @ turn msg reply)"
    using trimHistory_ok [OF a] slice_last_append_again [of 40 "rest @ [?u]" "[?a]"]
    by (simp add: turn_def)
  show ?thesis
    by (simp add: post_chat_def post_chat_begin_valid [OF assms(1-4)] assms(5) s1
        post_chat_resume_def assms(6) chats_get_set s2 chats_set_twice)
qed


lemma history_of_set: "history_of k (chats_set k v chats) = v"
  by (simp add: history_of_def chats_get_set)

lemma store_of_set: "store_of k (chats_set k v chats) = chats_set k v chats"
  by (simp add: store_of_def chats_has_get chats_get_set)

lemma non_system_turn: "\<forall>m \<in> set (turn msg reply). \<not> is_system m"
  by (simp add: turn_def user_not_system assistant_not_system)

text \<open>
  Successive messages to one chat, each answered by the upstream with the same completion:
  the chat is the system prompt followed by the last 40 messages of all the turns.
\<close>

lemma send_all_one_chat:
  assumes "cid \<noteq> []" and "\<forall>m \<in> set msgs. m \<noteq> []"
    and "\<And>sent. upstream sent = Resolved completion"
    and "chat_reply completion = Inr reply"
    and "history_of cid chats = system_message # rest"
    and "\<forall>m \<in> set rest. \<not> is_system m"
    and "msgs \<noteq> []"
  shows "chats_get cid
           (send_all upstream
              (map (\<lambda>m. Obj [(js ''chatId'', Str cid), (js ''message'', Str m)]) msgs) chats) =
         Some (system_message
               # slice_last 40 (rest @ concat (map (\<lambda>m. turn m reply) msgs)))"
  using assms(2,5,6,7)
proof (induction msgs arbitrary: chats rest)
  case Nil
  then show ?case by simp
next
  case (Cons m msgs)
  let ?b = "Obj [(js ''chatId'', Str cid), (js ''message'', Str m)]"
  let ?h = "system_message # slice_last 40 (rest @ turn m reply)"
  let ?chats = "chats_set cid ?h (store_of cid chats)"
  have f: "request_field ?b (js ''chatId'') = Str cid"
    "request_field ?b (js ''message'') = Str m"
    by (simp_all add: request_field_def js_def)
  from Cons.prems have m: "m \<noteq> []" by simp
  have one: "snd (post_chat upstream ?b chats) = ?chats"
    using post_chat_exchange
      [OF f(1) assms(1) f(2) m assms(3) assms(4) Cons.prems(2) Cons.prems(3)]
    by simp
  have ns: "\<forall>x \<in> set (slice_last 40 (rest @ turn m reply)). \<not> is_system x"
    using set_slice_last [of 40 "rest @ turn m reply"] Cons.prems(3) non_system_turn [of m reply]
    by auto
  show ?case
  proof (cases "msgs = []")
    case True
    then show ?thesis
      by (simp add: send_all_def one chats_get_set)
  next
    case False
    from Cons.prems(1) have "\<forall>m \<in> set msgs. m \<noteq> []" by simp
    from Cons.IH [OF this history_of_set ns False, of "store_of cid chats"]
    show ?thesis
      by (simp add: send_all_def one slice_last_append_again)
  qed
qed


lemma length_turns: "length (concat (map (\<lambda>m. turn m reply) msgs)) = 2 * length msgs"
  by (induction msgs) (simp_all add: turn_def)

lemma drop_turns:
  "drop (2 * k) (concat (map (\<lambda>m. turn m reply) msgs)) =
   concat (map (\<lambda>m. turn m reply) (drop k msgs))"
proof (induction msgs arbitrary: k)
  case Nil
  then show ?case by simp
next
  case (Cons m msgs)
  show ?case
  proof (cases k)
    case 0
    then show ?thesis by simp
  next
    case (Suc j)
    have "length (turn m reply) = 2"
      by (simp add: turn_def)
    with Cons.IH [of j] Suc show ?thesis
      by simp
  qed
qed

text \<open>
  25 successive messages to a new chat leave the system prompt and exactly 40 other
  messages: the turns of the last 20 messages, the 5 oldest turns evicted.
\<close>

lemma twenty_five_messages:
  assumes "cid \<noteq> []" and "length msgs = 25" and "\<forall>m \<in> set msgs. m \<noteq> []"
    and "\<And>sent. upstream sent = Resolved completion"
    and "chat_reply completion = Inr reply"
  shows "chats_get cid
           (send_all upstream
              (map (\<lambda>m. Obj [(js ''chatId'', Str cid), (js ''message'', Str m)]) msgs) []) =
         Some (system_message # concat (map (\<lambda>m. turn m reply) (drop 5 msgs)))"
    and "length (non_system (system_message # concat (map (\<lambda>m. turn m reply) (drop 5 msgs)))) = 40"
proof -
  let ?all = "concat (map (\<lambda>m. turn m reply) msgs)"
  from assms(2) have ne: "msgs \<noteq> []" by auto
  have h: "history_of cid [] = system_message # []"
    by (simp add: history_of_def chats_get_def)
  have "slice_last 40 ?all = drop (2 * 5) ?all"
    by (simp add: slice_last_def length_turns assms(2))
  also have "\<dots> = concat (map (\<lambda>m. turn m reply) (drop 5 msgs))"
    by (rule drop_turns)
  finally have kept: "slice_last 40 ([] @ ?all) = concat (map (\<lambda>m. turn m reply) (drop 5 msgs))"
    by simp
  from send_all_one_chat [OF assms(1) assms(3) assms(4) assms(5) h _ ne]
  show "chats_get cid
           (send_all upstream
              (map (\<lambda>m. Obj [(js ''chatId'', Str cid), (js ''message'', Str m)]) msgs) []) =
         Some (system_message # concat (map (\<lambda>m. turn m reply) (drop 5 msgs)))"
    unfolding kept by simp
  have "\<forall>x \<in> set (concat (map (\<lambda>m. turn m reply) (drop 5 msgs))). \<not> is_system x"
    using non_system_turn by auto
  then have "non_system (system_message # concat (map (\<lambda>m. turn m reply) (drop 5 msgs))) =
             concat (map (\<lambda>m. turn m reply) (drop 5 msgs))"
    by (simp add: non_system_def sample_roles filter_id_conv)
  then show "length (non_system (system_message
               # concat (map (\<lambda>m. turn m reply) (drop 5 msgs)))) = 40"
    by (simp add: length_turns assms(2))
qed


text \<open>
  A \<open>POST\<close> handler that is resumed before any other handler runs is the request served
  in one piece.
\<close>

lemma step_post_then_resume:
  "store (snd (step (snd (step s (Post req_body))) (Resume (length (suspended s)) outcome))) =
   snd (post_chat (\<lambda>sent. outcome) req_body (store s))"
proof (cases "post_chat_begin req_body (store s)")
  case (Pair progress chats')
  show ?thesis
  proof (cases progress)
    case (Answered res)
    with Pair show ?thesis
      by (simp add: post_chat_def)
  next
    case (AwaitUpstream cid sent)
    with Pair show ?thesis
      by (cases "post_chat_resume cid outcome chats'") (simp add: post_chat_def)
  qed
qed


section \<open>Blank replies and requests in between\<close>

lemma run_from_initial: "run events = run_from initial_state events"
  by (simp add: run_def run_from_def)

lemma chats_has_set: "chats_has k (chats_set k' v chats) \<longleftrightarrow> k = k' \<or> chats_has k chats"
  by (simp add: chats_has_get chats_get_set)

lemma chats_has_post_chat_begin:
  assumes "chats_has k chats"
  shows "chats_has k (snd (post_chat_begin req_body chats))"
proof (cases "\<exists>s. request_field req_body (js ''chatId'') = Str s \<and> s \<noteq> []")
  case False
  from post_chat_begin_invalid_chatId [OF this] assms show ?thesis
    by simp
next
  case True
  then obtain cid where cid: "request_field req_body (js ''chatId'') = Str cid" "cid \<noteq> []"
    by blast
  show ?thesis
  proof (cases "\<exists>s. request_field req_body (js ''message'') = Str s \<and> s \<noteq> []")
    case False
    from post_chat_begin_invalid_message [OF cid this] assms show ?thesis
      by simp
  next
    case True
    then obtain msg where msg: "request_field req_body (js ''message'') = Str msg" "msg \<noteq> []"
      by blast
    show ?thesis
      using assms
      by (simp add: post_chat_begin_valid [OF cid msg] chats_has_set store_of_def)
  qed
qed

lemma chats_has_post_chat_resume:
  "chats_has k chats \<Longrightarrow> chats_has k (snd (post_chat_resume k' outcome chats))"
  by (simp add: post_chat_resume_def chats_has_set
      split: upstream_result.splits sum.splits option.splits)

lemma chats_has_delete_chat:
  "chats_has k chats \<Longrightarrow> k' \<noteq> k \<Longrightarrow> chats_has k (snd (delete_chat k' chats))"
  by (simp add: delete_chat_def chats_has_get chats_get_delete)

lemma chats_has_step:
  assumes "chats_has k (store s)" and "e \<noteq> Delete k"
  shows "chats_has k (store (snd (step s e)))"
proof (cases e)
  case (Delete k')
  with assms chats_has_delete_chat [of k "store s" k'] show ?thesis
    by (cases "delete_chat k' (store s)") auto
next
  case (Post b)
  with chats_has_post_chat_begin [OF assms(1), of b] show ?thesis
    by (cases "post_chat_begin b (store s)") (simp split: post_progress.splits)
next
  case (Resume i outcome)
  with chats_has_post_chat_resume [OF assms(1), of "suspended s ! i" outcome] show ?thesis
    by (cases "post_chat_resume (suspended s ! i) outcome (store s)") (simp add: assms)
qed (use assms in simp_all)

text \<open>A chat stays in the store as long as no \<open>DELETE\<close> of its id is served.\<close>

lemma chat_stays_stored:
  "chats_has k (store s) \<Longrightarrow> Delete k \<notin> set events \<Longrightarrow>
   chats_has k (store (run_from s events))"
proof (induction events arbitrary: s)
  case Nil
  then show ?case by (simp add: run_from_def)
next
  case (Cons e events)
  from Cons.prems have "chats_has k (store (snd (step s e)))"
    by (intro chats_has_step) auto
  from Cons.IH [OF this] Cons.prems(2) show ?case
    by (simp add: run_from_def)
qed

text \<open>A valid \<open>POST\<close> leaves its chat stored and its handler suspended on that chat.\<close>

lemma post_suspends:
  assumes "request_field req_body (js ''chatId'') = Str cid" and "cid \<noteq> []"
    and "request_field req_body (js ''message'') = Str msg" and "msg \<noteq> []"
  shows "chats_has cid (store (snd (step s (Post req_body))))"
    and "suspended (snd (step s (Post req_body))) = suspended s @ [cid]"
    and "fst (step s (Post req_body)) = None"
  by (simp_all add: post_chat_begin_valid [OF assms] chats_has_set)

text \<open>
  Claim C8 as stated, for every such request, fails when the chat is deleted while the
  request waits for the upstream: a valid \<open>POST\<close> for chat \<open>c1\<close> is suspended, a
  \<open>DELETE\<close> of \<open>c1\<close> is served, and the upstream then succeeds with a reply of white
  space only. The resumed handler finds no chat to push onto, answers 500 and stores
  nothing.
\<close>

theorem post_chat_blank_reply_counterexample:
  "request_field (post_body ''c1'' ''hi'') (js ''chatId'') = Str (js ''c1'') \<and> js ''c1'' \<noteq> []
   \<and> request_field (post_body ''c1'' ''hi'') (js ''message'') = Str (js ''hi'') \<and> js ''hi'' \<noteq> []
   \<and> blank_content (completion_content (completion_with (Str (js '' ''))))
   \<and> run [Post (post_body ''c1'' ''hi''), Delete (js ''c1'')] =
       \<lparr>store = [], suspended = [js ''c1'']\<rparr>
   \<and> step (run [Post (post_body ''c1'' ''hi''), Delete (js ''c1'')])
        (Resume 0 (Resolved (completion_with (Str (js '' ''))))) =
       (Some (500, ErrorJson (js ''Server error'')), \<lparr>store = [], suspended = []\<rparr>)"
proof -
  have f: "request_field (post_body ''c1'' ''hi'') (js ''chatId'') = Str (js ''c1'')"
    "js ''c1'' \<noteq> []"
    "request_field (post_body ''c1'' ''hi'') (js ''message'') = Str (js ''hi'')"
    "js ''hi'' \<noteq> []"
    by (simp_all add: request_field_def post_body_def js_def)
  have b: "blank_content (completion_content (completion_with (Str (js '' ''))))"
    by (simp add: completion_content_def completion_with_def opt_chain_def js_def
        is_js_space_def)
  have r: "run [Post (post_body ''c1'' ''hi''), Delete (js ''c1'')] =
           \<lparr>store = [], suspended = [js ''c1'']\<rparr>"
    using f(2)
    by (simp add: run_def initial_state_def post_chat_begin_valid [OF f] history_of_def
        store_of_def chats_get_def chats_has_def delete_chat_def chats_delete_def)
  have "step \<lparr>store = [], suspended = [js ''c1'']\<rparr>
          (Resume 0 (Resolved (completion_with (Str (js '' ''))))) =
        (Some (500, ErrorJson (js ''Server error'')), \<lparr>store = [], suspended = []\<rparr>)"
    by (simp add: post_chat_resume_def chat_reply_blank [OF b] chats_get_def server_error_def)
  with f b r show ?thesis
    by simp
qed

text \<open>
  Claim C8, amended. A \<open>POST /api/chat\<close> with a valid chat id and message is started
  in any state and any handler steps are served in between. When its handler is resumed
  with an upstream call that has succeeded with a reply content that is absent, empty or
  white space only (the code units \<open>trim\<close> strips), and no \<open>DELETE\<close> of its chat id
  was served in between, or the chat is in the store again, then the answer is 200 with
  the fixed fallback string as the reply, and the fallback is stored as the assistant
  message that ends the chat.
\<close>

theorem post_chat_blank_reply_resumed:
  assumes "request_field req_body (js ''chatId'') = Str chatId" and "chatId \<noteq> []"
    and "request_field req_body (js ''message'') = Str message" and "message \<noteq> []"
    and "blank_content (completion_content completion)"
    and "s = run_from (snd (step s0 (Post req_body))) between"
    and "i < length (suspended s)" and "suspended s ! i = chatId"
    and "Delete chatId \<notin> set between \<or> chats_has chatId (store s)"
  shows "\<exists>updated history.
           chats_get chatId (store s) = Some updated
           \<and> step s (Resume i (Resolved completion)) =
               (Some (200, ReplyJson FALLBACK_REPLY),
                s\<lparr>store := chats_set chatId
                     (trimHistory (updated
                        @ [\<lparr>role = js ''assistant'', content = FALLBACK_REPLY\<rparr>])) (store s),
                  suspended := take i (suspended s) @ drop (Suc i) (suspended s)\<rparr>)
           \<and> chats_get chatId (store (snd (step s (Resume i (Resolved completion))))) =
               Some history
           \<and> history \<noteq> []
           \<and> last history = \<lparr>role = js ''assistant'', content = FALLBACK_REPLY\<rparr>"
proof -
  let ?a = "\<lparr>role = js ''assistant'', content = FALLBACK_REPLY\<rparr>"
  have "chats_has chatId (store s)"
    using assms(9)
  proof
    assume "Delete chatId \<notin> set between"
    with chat_stays_stored [OF post_suspends(1) [OF assms(1-4)]] show ?thesis
      by (simp add: assms(6))
  qed
  then obtain updated where updated: "chats_get chatId (store s) = Some updated"
    by (auto simp: chats_has_get)
  have resumed: "step s (Resume i (Resolved completion)) =
      (Some (200, ReplyJson FALLBACK_REPLY),
       s\<lparr>store := chats_set chatId (trimHistory (updated @ [?a])) (store s),
         suspended := take i (suspended s) @ drop (Suc i) (suspended s)\<rparr>)"
    using assms(7,8) by (simp add: post_chat_resume_blank [OF assms(5) updated])
  have stored: "chats_get chatId (store (snd (step s (Resume i (Resolved completion))))) =
      Some (trimHistory (updated @ [?a]))"
    unfolding resumed by (simp add: chats_get_set)
  have kept: "trimHistory (updated @ [?a]) \<noteq> [] \<and> last (trimHistory (updated @ [?a])) = ?a"
    by (rule last_trimHistory_snoc [OF assistant_not_system])
  from updated resumed stored kept show ?thesis
    by blast
qed


theorem post_chat_blank_reply_resumed_witness:
  "step (run_from (snd (step initial_state (Post (post_body ''c1'' ''hi''))))
           [Post (post_body ''c1'' ''yo'')])
     (Resume 0 (Resolved (completion_with Null))) =
   (Some (200, ReplyJson FALLBACK_REPLY),
    \<lparr>store = [(js ''c1'',
        [system_message, \<lparr>role = js ''user'', content = js ''hi''\<rparr>,
         \<lparr>role = js ''user'', content = js ''yo''\<rparr>,
         \<lparr>role = js ''assistant'', content = FALLBACK_REPLY\<rparr>])],
      suspended = [js ''c1'']\<rparr>)"
proof -
  let ?s = "run_from (snd (step initial_state (Post (post_body ''c1'' ''hi''))))
              [Post (post_body ''c1'' ''yo'')]"
  let ?u1 = "\<lparr>role = js ''user'', content = js ''hi''\<rparr>"
  let ?u2 = "\<lparr>role = js ''user'', content = js ''yo''\<rparr>"
  let ?a = "\<lparr>role = js ''assistant'', content = FALLBACK_REPLY\<rparr>"
  have f: "request_field (post_body ''c1'' ''hi'') (js ''chatId'') = Str (js ''c1'')"
    "js ''c1'' \<noteq> []"
    "request_field (post_body ''c1'' ''hi'') (js ''message'') = Str (js ''hi'')"
    "js ''hi'' \<noteq> []"
    by (simp_all add: request_field_def post_body_def js_def)
  have g: "request_field (post_body ''c1'' ''yo'') (js ''chatId'') = Str (js ''c1'')"
    "js ''c1'' \<noteq> []"
    "request_field (post_body ''c1'' ''yo'') (js ''message'') = Str (js ''yo'')"
    "js ''yo'' \<noteq> []"
    by (simp_all add: request_field_def post_body_def js_def)
  have b: "blank_content (completion_content (completion_with Null))"
    by (simp add: completion_content_def completion_with_def opt_chain_def js_def)
  have t1: "trimHistory [system_message, ?u1] = [system_message, ?u1]"
    and t2: "trimHistory [system_message, ?u1, ?u2] = [system_message, ?u1, ?u2]"
    and t3: "trimHistory [system_message, ?u1, ?u2, ?a] = [system_message, ?u1, ?u2, ?a]"
    by (simp_all add: trimHistory_ok user_not_system assistant_not_system slice_last_def)
  have s: "?s = \<lparr>store = [(js ''c1'', [system_message, ?u1, ?u2])],
                 suspended = [js ''c1'', js ''c1'']\<rparr>"
    by (simp add: run_from_def initial_state_def post_chat_begin_valid [OF f]
        post_chat_begin_valid [OF g] history_of_def store_of_def chats_get_def chats_has_def
        t1 t2)
  have i: "0 < length (suspended ?s)" and c: "suspended ?s ! 0 = js ''c1''"
    and d: "Delete (js ''c1'') \<notin> set [Post (post_body ''c1'' ''yo'')]
            \<or> chats_has (js ''c1'') (store ?s)"
    unfolding s by simp_all
  from post_chat_blank_reply_resumed [OF f b refl i c d]
  show ?thesis
    unfolding s by (simp add: chats_get_def t3)
qed

end
